theory Spec2Isabelle
  imports Main "HOL-Library.Multiset" "HOL-Library.Sublist"
begin

section \<open>Latin-square team assigner: the embedding\<close>

text \<open>
  The module \<^verbatim>\<open>latin_square_assigner.py\<close> has two functions of interest,
  \<^verbatim>\<open>latin_square\<close> and \<^verbatim>\<open>assign_teams\<close>, and an entry point \<^verbatim>\<open>main\<close> that seeds the
  process-wide random source before calling \<^verbatim>\<open>assign_teams\<close>.

  Python integers are \<^typ>\<open>int\<close>, lists are HOL lists, strings are \<^typ>\<open>string\<close>.
  An exception is a value of type \<open>error\<close>, returned on the left of a sum.  The dictionary
  \<^verbatim>\<open>assignments\<close> is an association list in insertion order, with Python's rule that a
  store to a key already present replaces the value in place.  The process-wide random
  source is an explicit state of an arbitrary type \<open>'r\<close>: \<^verbatim>\<open>random.shuffle\<close> and
  \<^verbatim>\<open>random.seed\<close> belong to the standard library, not to the module, and are taken as
  parameters.
\<close>

subsection \<open>Python primitives used by the module\<close>

datatype error = ValueError string | ZeroDivisionError | IndexError

text \<open>\<^verbatim>\<open>range(n)\<close>: the integers from 0 up to, not including, \<open>n\<close>; empty when \<open>n \<le> 0\<close>.\<close>

definition py_range :: "int \<Rightarrow> int list" where
  "py_range n = [0..n - 1]"

text \<open>\<^verbatim>\<open>a % b\<close> and \<^verbatim>\<open>a // b\<close> on integers: floor division, raising on a zero divisor.\<close>

definition py_mod :: "int \<Rightarrow> int \<Rightarrow> error + int" where
  "py_mod a b = (if b = 0 then Inl ZeroDivisionError else Inr (a mod b))"

definition py_floordiv :: "int \<Rightarrow> int \<Rightarrow> error + int" where
  "py_floordiv a b = (if b = 0 then Inl ZeroDivisionError else Inr (a div b))"

text \<open>\<^verbatim>\<open>xs[i]\<close>: a negative index counts from the end, an index out of range raises.\<close>

definition py_index :: "'a list \<Rightarrow> int \<Rightarrow> error + 'a" where
  "py_index xs i =
     (if 0 \<le> i \<and> i < int (length xs) then Inr (xs ! nat i)
      else if i < 0 \<and> - int (length xs) \<le> i then Inr (xs ! nat (int (length xs) + i))
      else Inl IndexError)"

text \<open>\<^verbatim>\<open>str(n)\<close> for an integer: decimal digits, most significant first, \<^verbatim>\<open>-\<close> before a
  negative number.\<close>

definition digit_char :: "nat \<Rightarrow> char" where
  "digit_char d = ''0123456789'' ! d"

fun str_nat :: "nat \<Rightarrow> string" where
  "str_nat n = (if n < 10 then [digit_char n] else str_nat (n div 10) @ [digit_char (n mod 10)])"

declare str_nat.simps [simp del]

definition str_int :: "int \<Rightarrow> string" where
  "str_int i = (if i < 0 then CHR ''-'' # str_nat (nat (- i)) else str_nat (nat i))"

text \<open>\<^verbatim>\<open>d[key] = v\<close> on a dictionary kept in insertion order.\<close>

type_synonym ('k, 'v) dict = "('k \<times> 'v) list"

fun dict_set :: "('k, 'v) dict \<Rightarrow> 'k \<Rightarrow> 'v \<Rightarrow> ('k, 'v) dict" where
  "dict_set [] key v = [(key, v)]"
| "dict_set ((key', v') # d) key v =
     (if key' = key then (key, v) # d else (key', v') # dict_set d key v)"

text \<open>A list comprehension whose element expression may raise: the first exception
  aborts the whole comprehension.\<close>

fun map_err :: "('a \<Rightarrow> error + 'b) \<Rightarrow> 'a list \<Rightarrow> error + 'b list" where
  "map_err f [] = Inr []"
| "map_err f (x # xs) =
     (case f x of
        Inl e \<Rightarrow> Inl e
      | Inr y \<Rightarrow> (case map_err f xs of Inl e \<Rightarrow> Inl e | Inr ys \<Rightarrow> Inr (y # ys)))"

subsection \<open>\<^verbatim>\<open>latin_square\<close>\<close>

text \<open>\<^verbatim>\<open>[[(i + j) % n for j in range(n)] for i in range(n)]\<close>.  The remainder is only
  evaluated when \<^verbatim>\<open>range(n)\<close> is not empty, that is for \<open>n > 0\<close>, so it never raises.\<close>

definition latin_square :: "int \<Rightarrow> int list list" where
  "latin_square n = map (\<lambda>i. map (\<lambda>j. (i + j) mod n) (py_range n)) (py_range n)"

subsection \<open>\<^verbatim>\<open>assign_teams\<close>\<close>

type_synonym assignment = "(string, string list) dict"

text \<open>\<^verbatim>\<open>f"Team {team_no + 1}"\<close>\<close>

definition team_name :: "int \<Rightarrow> string" where
  "team_name team_no = ''Team '' @ str_int (team_no + 1)"

text \<open>The message of the \<^verbatim>\<open>ValueError\<close> raised by the divisibility check.\<close>

definition multiple_message :: "int \<Rightarrow> int \<Rightarrow> string" where
  "multiple_message num_teams k =
     ''Number of teams ('' @ str_int num_teams @
     '') must be a multiple of the number of conditions ('' @ str_int k @ '').''"

text \<open>\<^verbatim>\<open>[conditions[col] for col in row]\<close>\<close>

definition row_labels :: "string list \<Rightarrow> int list \<Rightarrow> error + string list" where
  "row_labels conditions row = map_err (py_index conditions) row"

text \<open>The inner loop, \<^verbatim>\<open>for row_idx, row in enumerate(square)\<close>, over what is left of the
  enumeration; \<open>a\<close> is the dictionary built so far.\<close>

fun rows_loop ::
  "int list \<Rightarrow> string list \<Rightarrow> int \<Rightarrow> int \<Rightarrow> (nat \<times> int list) list \<Rightarrow> assignment
     \<Rightarrow> error + assignment" where
  "rows_loop team_indices conditions k block [] a = Inr a"
| "rows_loop team_indices conditions k block ((row_idx, row) # rest) a =
     (case py_index team_indices (block * k + int row_idx) of
        Inl e \<Rightarrow> Inl e
      | Inr team_no \<Rightarrow>
          (case row_labels conditions row of
             Inl e \<Rightarrow> Inl e
           | Inr labels \<Rightarrow>
               rows_loop team_indices conditions k block rest
                 (dict_set a (team_name team_no) labels)))"

text \<open>The outer loop, \<^verbatim>\<open>for block in range(teams_per_square)\<close>.\<close>

fun blocks_loop ::
  "int list \<Rightarrow> string list \<Rightarrow> int \<Rightarrow> int list list \<Rightarrow> int list \<Rightarrow> assignment
     \<Rightarrow> error + assignment" where
  "blocks_loop team_indices conditions k square [] a = Inr a"
| "blocks_loop team_indices conditions k square (block # rest) a =
     (case rows_loop team_indices conditions k block (enumerate 0 square) a of
        Inl e \<Rightarrow> Inl e
      | Inr a' \<Rightarrow> blocks_loop team_indices conditions k square rest a')"

text \<open>
  \<^verbatim>\<open>assign_teams(num_teams, conditions)\<close>, run on the random-source state \<open>rng\<close>.  The
  result pairs the outcome (the dictionary or the exception) with the state of the random
  source afterwards.  \<open>shuffle rng xs\<close> stands for \<^verbatim>\<open>random.shuffle(xs)\<close>: it returns the
  list as rearranged in place and the next state.
\<close>

definition assign_teams ::
  "('r \<Rightarrow> int list \<Rightarrow> int list \<times> 'r) \<Rightarrow> int \<Rightarrow> string list \<Rightarrow> 'r
     \<Rightarrow> (error + assignment) \<times> 'r" where
  "assign_teams shuffle num_teams conditions rng =
     (let k = int (length conditions) in
      case py_mod num_teams k of
        Inl e \<Rightarrow> (Inl e, rng)
      | Inr rem \<Rightarrow>
          if rem \<noteq> 0 then (Inl (ValueError (multiple_message num_teams k)), rng)
          else
            let square = latin_square k in
            (case py_floordiv num_teams k of
               Inl e \<Rightarrow> (Inl e, rng)
             | Inr teams_per_square \<Rightarrow>
                 let (team_indices, rng') = shuffle rng (py_range num_teams)
                 in (blocks_loop team_indices conditions k square
                       (py_range teams_per_square) [], rng')))"

subsection \<open>\<^verbatim>\<open>main\<close>\<close>

text \<open>
  The part of \<^verbatim>\<open>main\<close> between argument parsing and printing: seed the random source when
  \<^verbatim>\<open>--seed\<close> was given, then call \<^verbatim>\<open>assign_teams\<close>.  \<open>seed s\<close> stands for the state that
  \<^verbatim>\<open>random.seed(s)\<close> installs.
\<close>

definition main ::
  "(int \<Rightarrow> 'r) \<Rightarrow> ('r \<Rightarrow> int list \<Rightarrow> int list \<times> 'r) \<Rightarrow> int option \<Rightarrow> int \<Rightarrow> string list \<Rightarrow> 'r
     \<Rightarrow> (error + assignment) \<times> 'r" where
  "main seed shuffle seed_arg teams conditions rng =
     (let rng1 = (case seed_arg of None \<Rightarrow> rng | Some s \<Rightarrow> seed s)
      in assign_teams shuffle teams conditions rng1)"

section \<open>Notions used to state the properties\<close>

text \<open>The number of entries of a dictionary whose sequence has label \<open>c\<close> at position \<open>p\<close>.
  Keys are unique in a dictionary, so this counts teams.\<close>

definition position_count :: "assignment \<Rightarrow> nat \<Rightarrow> string \<Rightarrow> nat" where
  "position_count a p c = length (filter (\<lambda>(team, labels). p < length labels \<and> labels ! p = c) a)"

text \<open>Column \<open>j\<close> of a square: \<^verbatim>\<open>[square[i][j] for i in range(k)]\<close>.\<close>

definition column :: "int list list \<Rightarrow> nat \<Rightarrow> int list" where
  "column square j = map (\<lambda>row. row ! j) square"

text \<open>Storing a list of key-value pairs one after the other, and the pair the loops store
  for the team at position \<open>pos\<close> of the shuffled index list.\<close>

definition store_all :: "('k \<times> 'v) list \<Rightarrow> ('k, 'v) dict \<Rightarrow> ('k, 'v) dict" where
  "store_all kvs d = fold (\<lambda>(key, v) d. dict_set d key v) kvs d"

definition entry :: "int list \<Rightarrow> string list \<Rightarrow> nat \<Rightarrow> string \<times> string list" where
  "entry team_indices conditions pos =
     (team_name (team_indices ! pos), rotate (pos mod length conditions) conditions)"

text \<open>Reading a decimal numeral back, the inverse of \<open>str_nat\<close>.\<close>

definition digit_val :: "char \<Rightarrow> nat" where
  "digit_val c = of_char c - 48"

definition nat_of_digits :: "string \<Rightarrow> nat" where
  "nat_of_digits cs = foldl (\<lambda>acc c. 10 * acc + digit_val c) 0 cs"

text \<open>
  A concrete random source on which the theorems are instantiated: the state is a counter,
  seeding sets it, and shuffling reverses the list, rotates it by the counter and advances
  the counter.
\<close>

definition counter_seed :: "int \<Rightarrow> nat" where
  "counter_seed s = nat \<bar>s\<bar>"

definition counter_shuffle :: "nat \<Rightarrow> int list \<Rightarrow> int list \<times> nat" where
  "counter_shuffle rng xs = (rotate (Suc rng) (rev xs), Suc rng)"

section \<open>Auxiliary facts\<close>

subsection \<open>Ranges, indexing and the rows of the square\<close>

lemma py_range_conv: "py_range n = map int [0..<nat n]"
  by (rule nth_equalityI) (auto simp: py_range_def)

lemma length_py_range: "length (py_range n) = nat n"
  by (simp add: py_range_conv)

lemma upt_split: "i \<le> j \<Longrightarrow> j \<le> k \<Longrightarrow> [i..<k] = [i..<j] @ [j..<k]"
  using upt_add_eq_append [of i j "k - j"] by simp

lemma latin_square_conv:
  "latin_square (int K) = map (\<lambda>i. map (\<lambda>j. int ((i + j) mod K)) [0..<K]) [0..<K]"
  by (simp add: latin_square_def py_range_conv comp_def zmod_int)

lemma rotate_as_map:
  "r < length xs \<Longrightarrow> map (\<lambda>j. xs ! ((r + j) mod length xs)) [0..<length xs] = rotate r xs"
  by (rule nth_equalityI) (auto simp: nth_rotate)

lemma mset_rotate: "mset (rotate n xs) = mset xs"
proof -
  let ?k = "n mod length xs"
  have "mset (rotate n xs) = mset (drop ?k xs) + mset (take ?k xs)"
    by (simp add: rotate_drop_take)
  also have "\<dots> = mset (take ?k xs @ drop ?k xs)"
    by (simp only: mset_append add.commute)
  also have "\<dots> = mset xs"
    by (simp only: append_take_drop_id)
  finally show ?thesis .
qed

lemma rotate_upt: "r < K \<Longrightarrow> map (\<lambda>j. (r + j) mod K) [0..<K] = rotate r [0..<K]"
  by (rule nth_equalityI) (auto simp: nth_rotate)

lemma map_err_total:
  "(\<And>x. x \<in> set xs \<Longrightarrow> f x = Inr (g x)) \<Longrightarrow> map_err f xs = Inr (map g xs)"
  by (induction xs) auto

lemma py_index_nat: "i < length xs \<Longrightarrow> py_index xs (int i) = Inr (xs ! i)"
  by (simp add: py_index_def)

lemma row_labels_square:
  assumes "r < length conditions"
  shows "row_labels conditions (latin_square (int (length conditions)) ! r)
         = Inr (rotate r conditions)"
proof -
  let ?K = "length conditions"
  let ?row = "map (\<lambda>j. int ((r + j) mod ?K)) [0..<?K]"
  have row: "latin_square (int ?K) ! r = ?row"
    using assms by (simp add: latin_square_conv)
  have "map_err (py_index conditions) ?row = Inr (map (\<lambda>c. conditions ! nat c) ?row)"
  proof (intro map_err_total)
    fix c assume "c \<in> set ?row"
    then obtain j where c: "c = int ((r + j) mod ?K)" by auto
    have "0 < ?K" using assms by (cases conditions) simp_all
    then have "(r + j) mod ?K < ?K" by (rule mod_less_divisor)
    then show "py_index conditions c = Inr (conditions ! nat c)"
      unfolding c by (simp add: py_index_nat)
  qed
  then show ?thesis
    using assms by (simp add: row_labels_def row comp_def rotate_as_map)
qed

lemma rotate_row:
  assumes "r < length conditions"
  shows "map (\<lambda>j. conditions ! nat (latin_square (int (length conditions)) ! r ! j))
           [0..<length conditions] = rotate r conditions"
proof -
  have "map (\<lambda>j. conditions ! nat (latin_square (int (length conditions)) ! r ! j))
           [0..<length conditions]
        = map (\<lambda>j. conditions ! ((r + j) mod length conditions)) [0..<length conditions]"
    using assms by (intro map_cong refl) (simp add: latin_square_conv)
  then show ?thesis using assms by (simp add: rotate_as_map)
qed

subsection \<open>Stores into the dictionary\<close>

lemma dict_set_fresh: "key \<notin> fst ` set d \<Longrightarrow> dict_set d key v = d @ [(key, v)]"
  by (induction d) auto

lemma store_all_simps:
  "store_all [] d = d"
  "store_all ((key, v) # kvs) d = store_all kvs (dict_set d key v)"
  "store_all (xs @ ys) d = store_all ys (store_all xs d)"
  by (simp_all add: store_all_def)

lemma store_all_distinct:
  "distinct (map fst kvs) \<Longrightarrow> fst ` set kvs \<inter> fst ` set d = {} \<Longrightarrow> store_all kvs d = d @ kvs"
proof (induction kvs arbitrary: d)
  case Nil
  then show ?case by (simp add: store_all_simps)
next
  case (Cons kv kvs)
  obtain key v where kv: "kv = (key, v)" by (cases kv)
  have fresh: "key \<notin> fst ` set d" using Cons.prems(2) by (auto simp: kv)
  have "store_all (kv # kvs) d = store_all kvs (d @ [(key, v)])"
    by (simp add: kv store_all_simps dict_set_fresh [OF fresh])
  also have "\<dots> = (d @ [(key, v)]) @ kvs"
    using Cons.prems by (intro Cons.IH) (auto simp: kv)
  finally show ?case by (simp add: kv)
qed

subsection \<open>The two loops\<close>

lemma rows_loop_enum:
  assumes "b * length conditions + length conditions \<le> length team_indices"
    and "n + length rs \<le> length conditions"
    and "\<And>i. i < length rs \<Longrightarrow> rs ! i = latin_square (int (length conditions)) ! (n + i)"
  shows "rows_loop team_indices conditions (int (length conditions)) (int b) (enumerate n rs) a
         = Inr (store_all (map (entry team_indices conditions)
                  [b * length conditions + n ..< b * length conditions + n + length rs]) a)"
  using assms(2,3)
proof (induction rs arbitrary: n a)
  case Nil
  then show ?case by (simp add: store_all_simps)
next
  case (Cons row rs)
  let ?K = "length conditions"
  have n: "n < ?K" using Cons.prems(1) by simp
  have row: "row = latin_square (int ?K) ! n" using Cons.prems(2) [of 0] by simp
  have idx: "py_index team_indices (int b * int ?K + int n) = Inr (team_indices ! (b * ?K + n))"
    using py_index_nat [of "b * ?K + n" team_indices] assms(1) n by simp
  have lab: "row_labels conditions row = Inr (rotate n conditions)"
    unfolding row using n by (rule row_labels_square)
  have IH: "rows_loop team_indices conditions (int ?K) (int b) (enumerate (Suc n) rs) a'
         = Inr (store_all (map (entry team_indices conditions)
                  [b * ?K + Suc n ..< b * ?K + Suc n + length rs]) a')" for a'
  proof (rule Cons.IH)
    show "Suc n + length rs \<le> ?K" using Cons.prems(1) by simp
    show "rs ! i = latin_square (int ?K) ! (Suc n + i)" if "i < length rs" for i
      using Cons.prems(2) [of "Suc i"] that by simp
  qed
  have upt: "[b * ?K + n ..< b * ?K + n + length (row # rs)]
        = (b * ?K + n) # [b * ?K + Suc n ..< b * ?K + Suc n + length rs]"
    by (subst upt_conv_Cons) simp_all
  have e: "entry team_indices conditions (b * ?K + n)
             = (team_name (team_indices ! (b * ?K + n)), rotate n conditions)"
    using n by (simp add: entry_def)
  have "rows_loop team_indices conditions (int ?K) (int b) (enumerate n (row # rs)) a
        = rows_loop team_indices conditions (int ?K) (int b) (enumerate (Suc n) rs)
            (dict_set a (team_name (team_indices ! (b * ?K + n))) (rotate n conditions))"
    by (simp add: idx lab)
  also have "\<dots> = Inr (store_all (map (entry team_indices conditions)
                  [b * ?K + Suc n ..< b * ?K + Suc n + length rs])
            (dict_set a (team_name (team_indices ! (b * ?K + n))) (rotate n conditions)))"
    by (rule IH)
  also have "\<dots> = Inr (store_all (map (entry team_indices conditions)
                  [b * ?K + n ..< b * ?K + n + length (row # rs)]) a)"
    unfolding upt by (simp only: list.map e store_all_simps)
  finally show ?case .
qed

lemma blocks_loop_upt:
  assumes "m * length conditions \<le> length team_indices"
    and "b + d = m"
  shows "blocks_loop team_indices conditions (int (length conditions))
           (latin_square (int (length conditions))) (map int [b..<b + d]) a
         = Inr (store_all (map (entry team_indices conditions)
                  [b * length conditions ..< (b + d) * length conditions]) a)"
  using assms(2)
proof (induction d arbitrary: b a)
  case 0
  then show ?case by (simp add: store_all_simps)
next
  case (Suc d)
  let ?K = "length conditions"
  let ?sq = "latin_square (int ?K)"
  have len: "length ?sq = ?K" by (simp add: latin_square_conv)
  have "Suc b * ?K \<le> m * ?K" using Suc.prems by (intro mult_le_mono1) simp
  then have fit: "b * ?K + ?K \<le> length team_indices" using assms(1) by simp
  have rows: "rows_loop team_indices conditions (int ?K) (int b) (enumerate 0 ?sq) a
        = Inr (store_all (map (entry team_indices conditions) [b * ?K ..< b * ?K + ?K]) a)"
    using rows_loop_enum [OF fit, of 0 ?sq a] by (simp add: len)
  have IH: "blocks_loop team_indices conditions (int ?K) ?sq (map int [Suc b..<Suc b + d]) a'
         = Inr (store_all (map (entry team_indices conditions)
                  [Suc b * ?K ..< (Suc b + d) * ?K]) a')" for a'
    using Suc.prems by (intro Suc.IH) simp
  have upt: "[b..<b + Suc d] = b # [Suc b..<Suc b + d]"
    by (subst upt_conv_Cons) simp_all
  have split: "[b * ?K ..< (b + Suc d) * ?K]
        = [b * ?K ..< b * ?K + ?K] @ [Suc b * ?K ..< (Suc b + d) * ?K]"
  proof -
    have "[b * ?K ..< (b + Suc d) * ?K]
          = [b * ?K ..< Suc b * ?K] @ [Suc b * ?K ..< (b + Suc d) * ?K]"
      by (rule upt_split) simp_all
    then show ?thesis by (simp add: add.commute)
  qed
  have "blocks_loop team_indices conditions (int ?K) ?sq (map int [b..<b + Suc d]) a
        = blocks_loop team_indices conditions (int ?K) ?sq (map int [Suc b..<Suc b + d])
            (store_all (map (entry team_indices conditions) [b * ?K ..< b * ?K + ?K]) a)"
    unfolding upt by (simp add: rows)
  also have "\<dots> = Inr (store_all (map (entry team_indices conditions)
                  [Suc b * ?K ..< (Suc b + d) * ?K])
            (store_all (map (entry team_indices conditions) [b * ?K ..< b * ?K + ?K]) a))"
    by (rule IH)
  also have "\<dots> = Inr (store_all (map (entry team_indices conditions)
                  [b * ?K ..< (b + Suc d) * ?K]) a)"
    unfolding split by (simp only: map_append store_all_simps)
  finally show ?case .
qed

subsection \<open>Exceptions of the loops\<close>

lemma py_index_error: "py_index xs i = Inl e \<Longrightarrow> e = IndexError"
  by (auto simp: py_index_def split: if_splits)

lemma map_err_error: "map_err f xs = Inl e \<Longrightarrow> \<exists>x\<in>set xs. f x = Inl e"
  by (induction xs) (auto split: sum.splits)

lemma row_labels_error: "row_labels conditions row = Inl e \<Longrightarrow> e = IndexError"
  unfolding row_labels_def by (auto dest!: map_err_error py_index_error)

lemma rows_loop_error:
  "rows_loop team_indices conditions k block rs a = Inl e \<Longrightarrow> e = IndexError"
  by (induction team_indices conditions k block rs a rule: rows_loop.induct)
     (auto split: sum.splits dest: py_index_error row_labels_error)

lemma blocks_loop_error:
  "blocks_loop team_indices conditions k square bs a = Inl e \<Longrightarrow> e = IndexError"
  by (induction team_indices conditions k square bs a rule: blocks_loop.induct)
     (auto split: sum.splits dest: rows_loop_error)

subsection \<open>The branches of \<open>assign_teams\<close>\<close>

lemma assign_teams_cases:
  "assign_teams shuffle num_teams conditions rng =
     (if conditions = [] then (Inl ZeroDivisionError, rng)
      else if num_teams mod int (length conditions) \<noteq> 0
        then (Inl (ValueError (multiple_message num_teams (int (length conditions)))), rng)
      else (blocks_loop (fst (shuffle rng (py_range num_teams))) conditions
              (int (length conditions)) (latin_square (int (length conditions)))
              (py_range (num_teams div int (length conditions))) [],
            snd (shuffle rng (py_range num_teams))))"
  by (simp add: assign_teams_def py_mod_def py_floordiv_def Let_def split_beta)

lemma blocks_times:
  assumes "0 < K" and "num_teams mod int K = 0"
  shows "nat (num_teams div int K) * K = nat num_teams"
proof (cases "0 \<le> num_teams")
  case True
  have "num_teams = (num_teams div int K) * int K" using assms(2) by auto
  moreover have "0 \<le> num_teams div int K"
    using True assms(1) by (simp add: pos_imp_zdiv_nonneg_iff)
  ultimately show ?thesis
    by (metis nat_int nat_mult_distrib)
next
  case False
  then have "num_teams div int K < 0" using assms(1) by (simp add: div_neg_pos_less0)
  then show ?thesis using False by simp
qed

lemma assign_teams_stores:
  assumes "conditions \<noteq> []" and "num_teams mod int (length conditions) = 0"
    and "length (fst (shuffle rng (py_range num_teams))) = nat num_teams"
  shows "assign_teams shuffle num_teams conditions rng
         = (Inr (store_all (map (entry (fst (shuffle rng (py_range num_teams))) conditions)
                   [0..<nat num_teams]) []),
            snd (shuffle rng (py_range num_teams)))"
proof -
  let ?K = "length conditions"
  let ?m = "nat (num_teams div int ?K)"
  let ?ti = "fst (shuffle rng (py_range num_teams))"
  have K: "0 < ?K" using assms(1) by simp
  have mK: "?m * ?K = nat num_teams" using K assms(2) by (rule blocks_times)
  have "blocks_loop ?ti conditions (int ?K) (latin_square (int ?K)) (map int [0..<0 + ?m]) []
        = Inr (store_all (map (entry ?ti conditions) [0 * ?K ..< (0 + ?m) * ?K]) [])"
    by (rule blocks_loop_upt [where m = ?m]) (simp_all add: mK assms(3))
  then have loop: "blocks_loop ?ti conditions (int ?K) (latin_square (int ?K))
           (py_range (num_teams div int ?K)) []
        = Inr (store_all (map (entry ?ti conditions) [0..<nat num_teams]) [])"
    by (simp add: mK py_range_conv)
  show ?thesis
    using assms(1,2) by (simp add: assign_teams_cases loop)
qed

subsection \<open>Team names are injective\<close>

lemma digit_val_digit_char: "d < 10 \<Longrightarrow> digit_val (digit_char d) = d"
proof -
  assume "d < 10"
  then have "d \<in> {0, 1, 2, 3, 4, 5, 6, 7, 8, 9}" by auto
  then show ?thesis
    by (auto simp: digit_val_def digit_char_def)
qed

lemma nat_of_digits_str_nat: "nat_of_digits (str_nat n) = n"
proof (induction n rule: str_nat.induct)
  case (1 n)
  show ?case
  proof (cases "n < 10")
    case True
    then show ?thesis
      by (subst str_nat.simps) (simp add: nat_of_digits_def digit_val_digit_char)
  next
    case False
    have "nat_of_digits (str_nat n)
          = 10 * nat_of_digits (str_nat (n div 10)) + digit_val (digit_char (n mod 10))"
      using False by (subst str_nat.simps) (simp add: nat_of_digits_def)
    also have "\<dots> = 10 * (n div 10) + n mod 10"
      using False by (simp add: "1.IH" digit_val_digit_char)
    finally show ?thesis by simp
  qed
qed

lemma str_nat_inj: "str_nat a = str_nat b \<Longrightarrow> a = b"
  by (metis nat_of_digits_str_nat)

lemma team_name_inj: "0 \<le> a \<Longrightarrow> 0 \<le> b \<Longrightarrow> team_name a = team_name b \<Longrightarrow> a = b"
  by (auto simp: team_name_def str_int_def dest!: str_nat_inj)

subsection \<open>The dictionary returned on a valid input\<close>

lemma shuffled_facts:
  assumes "mset team_indices = mset (py_range num_teams)"
  shows "length team_indices = nat num_teams"
    and "distinct team_indices"
    and "set team_indices = {0..num_teams - 1}"
proof -
  show "length team_indices = nat num_teams"
    using mset_eq_length [OF assms] by (simp add: length_py_range)
  show "distinct team_indices"
    using mset_eq_imp_distinct_iff [OF assms] by (simp add: py_range_def)
  show "set team_indices = {0..num_teams - 1}"
    using mset_eq_setD [OF assms] by (simp add: py_range_def)
qed

lemma entries_keys:
  assumes "length team_indices = n"
  shows "map fst (map (entry team_indices conditions) [0..<n]) = map team_name team_indices"
proof -
  have "map fst (map (entry team_indices conditions) [0..<n])
        = map team_name (map (\<lambda>pos. team_indices ! pos) [0..<length team_indices])"
    by (simp add: entry_def comp_def assms)
  then show ?thesis by (simp only: map_nth)
qed

lemma entries_distinct:
  assumes "mset team_indices = mset (py_range num_teams)"
  shows "distinct (map fst (map (entry team_indices conditions) [0..<nat num_teams]))"
proof -
  have "inj_on team_name (set team_indices)"
    by (rule inj_onI) (auto simp: shuffled_facts(3) [OF assms] dest: team_name_inj)
  then show ?thesis
    unfolding entries_keys [OF shuffled_facts(1) [OF assms]]
    using shuffled_facts(2) [OF assms] by (simp add: distinct_map)
qed

lemma assign_teams_entries:
  assumes "conditions \<noteq> []" and "num_teams mod int (length conditions) = 0"
    and "mset (fst (shuffle rng (py_range num_teams))) = mset (py_range num_teams)"
  shows "fst (assign_teams shuffle num_teams conditions rng)
         = Inr (map (entry (fst (shuffle rng (py_range num_teams))) conditions)
                  [0..<nat num_teams])"
proof -
  let ?es = "map (entry (fst (shuffle rng (py_range num_teams))) conditions) [0..<nat num_teams]"
  have "store_all ?es [] = [] @ ?es"
    using entries_distinct [OF assms(3)] by (rule store_all_distinct) simp
  then show ?thesis
    using assign_teams_stores [of conditions num_teams shuffle rng]
      assms(1,2) shuffled_facts(1) [OF assms(3)] by simp
qed

subsection \<open>The counter-driven random source\<close>

lemma counter_shuffle_permutes: "mset (fst (counter_shuffle rng xs)) = mset xs"
  unfolding counter_shuffle_def by (simp only: fst_conv mset_rotate mset_rev)

subsection \<open>Counting a label at a position\<close>

lemma position_count_entries:
  assumes "p < length conditions"
  shows "position_count (map (entry team_indices conditions) xs) p c
         = length (filter (\<lambda>pos. rotate (pos mod length conditions) conditions ! p = c) xs)"
  using assms by (simp add: position_count_def entry_def filter_map comp_def)

lemma count_distinct_member:
  assumes "distinct xs" and "c \<in> set xs"
  shows "length (filter (\<lambda>r. xs ! r = c) [0..<length xs]) = 1"
proof -
  have "length (filter (\<lambda>r. xs ! r = c) [0..<length xs])
        = length (filter (\<lambda>x. x = c) (map (\<lambda>r. xs ! r) [0..<length xs]))"
    by (simp add: filter_map comp_def)
  also have "\<dots> = length (filter (\<lambda>x. x = c) xs)"
    by (simp only: map_nth)
  also have "\<dots> = card ({x. x = c} \<inter> set xs)"
    using assms(1) by (rule distinct_length_filter)
  also have "{x. x = c} \<inter> set xs = {c}"
    using assms(2) by auto
  finally show ?thesis by simp
qed

lemma count_in_block:
  assumes "distinct conditions" and "c \<in> set conditions" and "p < length conditions"
  shows "length (filter (\<lambda>r. rotate r conditions ! p = c) [0..<length conditions]) = 1"
proof -
  let ?K = "length conditions"
  have "rotate r conditions ! p = rotate p conditions ! r" if "r < ?K" for r
    using that assms(3) by (simp add: nth_rotate add.commute)
  then have "filter (\<lambda>r. rotate r conditions ! p = c) [0..<?K]
             = filter (\<lambda>r. rotate p conditions ! r = c) [0..<?K]"
    by (intro filter_cong refl) simp
  moreover have "length (filter (\<lambda>r. rotate p conditions ! r = c)
                   [0..<length (rotate p conditions)]) = 1"
    using assms(1,2) by (intro count_distinct_member) simp_all
  ultimately show ?thesis by simp
qed

lemma count_over_blocks:
  "length (filter (\<lambda>pos. P (pos mod K)) [0..<M * K]) = M * length (filter P [0..<K])"
proof (induction M)
  case 0
  then show ?case by simp
next
  case (Suc M)
  have split: "[0..<Suc M * K] = [0..<M * K] @ [M * K..<Suc M * K]"
    by (rule upt_split) simp_all
  have "[M * K..<Suc M * K] = map (\<lambda>r. r + M * K) [0..<K]"
    by (simp add: map_add_upt add.commute)
  then have "filter (\<lambda>pos. P (pos mod K)) [M * K..<Suc M * K]
             = map (\<lambda>r. r + M * K) (filter (\<lambda>r. P ((r + M * K) mod K)) [0..<K])"
    by (simp only: filter_map comp_def)
  also have "filter (\<lambda>r. P ((r + M * K) mod K)) [0..<K] = filter P [0..<K]"
    by (intro filter_cong refl) simp
  finally have "length (filter (\<lambda>pos. P (pos mod K)) [M * K..<Suc M * K])
                = length (filter P [0..<K])"
    by simp
  then show ?case
    unfolding split by (simp add: Suc.IH)
qed

section \<open>The square builder\<close>

text \<open>
  Claim C2.  For every order \<open>k \<ge> 1\<close>, \<open>latin_square k\<close> is a table of \<open>k\<close> rows of length
  \<open>k\<close>, its cell \<open>(i, j)\<close> is \<open>(i + j) mod k\<close>, and every row and every column is a
  permutation of the integers \<open>0, \<dots>, k - 1\<close>.
\<close>

theorem latin_square_valid:
  assumes "1 \<le> k"
  shows "length (latin_square k) = nat k
       \<and> (\<forall>i<nat k. length (latin_square k ! i) = nat k)
       \<and> (\<forall>i<nat k. \<forall>j<nat k. latin_square k ! i ! j = (int i + int j) mod k)
       \<and> (\<forall>i<nat k. mset (latin_square k ! i) = mset (py_range k))
       \<and> (\<forall>j<nat k. mset (column (latin_square k) j) = mset (py_range k))"
proof -
  define K where "K = nat k"
  have k: "k = int K" using assms by (simp add: K_def)
  have row: "latin_square k ! i = map int (rotate i [0..<K])" if "i < K" for i
    using that by (simp add: k latin_square_conv flip: rotate_upt map_map [unfolded comp_def])
  have col: "column (latin_square k) j = map int (rotate j [0..<K])" if "j < K" for j
  proof -
    have "column (latin_square k) j = map (\<lambda>i. int ((j + i) mod K)) [0..<K]"
      using that by (simp add: column_def k latin_square_conv add.commute)
    then show ?thesis
      using that by (simp flip: rotate_upt map_map [unfolded comp_def])
  qed
  have cell: "latin_square k ! i ! j = (int i + int j) mod k" if "i < K" "j < K" for i j
    using that by (simp add: k latin_square_conv zmod_int)
  have perm: "mset (map int (rotate i [0..<K])) = mset (py_range k)" for i
    by (simp only: k py_range_conv nat_int mset_map mset_rotate)
  have len: "length (latin_square k) = K"
    by (simp add: k latin_square_conv)
  have rlen: "length (latin_square k ! i) = K" if "i < K" for i
    using that by (simp add: row)
  have rows: "mset (latin_square k ! i) = mset (py_range k)" if "i < K" for i
    using that by (simp only: row perm)
  have cols: "mset (column (latin_square k) j) = mset (py_range k)" if "j < K" for j
    using that by (simp only: col perm)
  show ?thesis
    unfolding K_def [symmetric] using len rlen cell rows cols by blast
qed

theorem latin_square_valid_witness:
  "(1::int) \<le> 3
   \<and> latin_square 3 = [[0, 1, 2], [1, 2, 0], [2, 0, 1]]
   \<and> mset (latin_square 3 ! 1) = mset (py_range 3)
   \<and> mset (column (latin_square 3) 2) = mset (py_range 3)"
proof -
  have sq: "latin_square 3 = [[0, 1, 2], [1, 2, 0], [2, 0, 1]]"
    by (simp add: latin_square_def py_range_def upto_rec1)
  have valid: "(\<forall>i<nat 3. mset (latin_square 3 ! i) = mset (py_range 3))
       \<and> (\<forall>j<nat 3. mset (column (latin_square 3) j) = mset (py_range 3))"
    using latin_square_valid [of 3] by simp
  have "mset (latin_square 3 ! 1) = mset (py_range 3)"
    using valid by simp
  moreover have "mset (column (latin_square 3) 2) = mset (py_range 3)"
    using valid by simp
  ultimately show ?thesis
    using sq by simp
qed

section \<open>The error paths of the team assigner\<close>

text \<open>
  Claim C3.  For a non-empty list of conditions, \<open>assign_teams\<close> raises the module's
  configuration error (a \<^verbatim>\<open>ValueError\<close>) exactly when \<open>num_teams mod k\<close> is not zero, and the
  message of that error contains the decimal numerals of both \<open>num_teams\<close> and \<open>k\<close>.
\<close>

theorem assign_teams_rejects_iff:
  assumes "conditions \<noteq> []"
  shows "((\<exists>msg. fst (assign_teams shuffle num_teams conditions rng) = Inl (ValueError msg))
            \<longleftrightarrow> num_teams mod int (length conditions) \<noteq> 0)
       \<and> (num_teams mod int (length conditions) \<noteq> 0 \<longrightarrow>
            fst (assign_teams shuffle num_teams conditions rng)
              = Inl (ValueError (multiple_message num_teams (int (length conditions))))
          \<and> sublist (str_int num_teams) (multiple_message num_teams (int (length conditions)))
          \<and> sublist (str_int (int (length conditions)))
               (multiple_message num_teams (int (length conditions))))"
proof -
  let ?k = "int (length conditions)"
  have s1: "sublist (str_int num_teams) (multiple_message num_teams ?k)"
    unfolding multiple_message_def by (rule sublist_appendI)
  have "multiple_message num_teams ?k =
          (''Number of teams ('' @ str_int num_teams @
           '') must be a multiple of the number of conditions ('') @ str_int ?k @ '').''"
    by (simp add: multiple_message_def)
  then have s2: "sublist (str_int ?k) (multiple_message num_teams ?k)"
    by (metis sublist_appendI)
  have "\<not> (\<exists>msg. fst (assign_teams shuffle num_teams conditions rng) = Inl (ValueError msg))"
    if "num_teams mod ?k = 0"
    using that assms by (auto simp: assign_teams_cases dest: blocks_loop_error)
  then show ?thesis
    using assms s1 s2 by (auto simp: assign_teams_cases)
qed

theorem assign_teams_rejects_iff_witness:
  "[''A'', ''B'', ''C''] \<noteq> [] \<and> (7::int) mod int (length [''A'', ''B'', ''C'']) \<noteq> 0
   \<and> fst (assign_teams counter_shuffle 7 [''A'', ''B'', ''C''] 0)
       = Inl (ValueError
           ''Number of teams (7) must be a multiple of the number of conditions (3).'')
   \<and> sublist ''7'' ''Number of teams (7) must be a multiple of the number of conditions (3).''
   \<and> sublist ''3'' ''Number of teams (7) must be a multiple of the number of conditions (3).''"
proof -
  have msg: "multiple_message 7 3
             = ''Number of teams (7) must be a multiple of the number of conditions (3).''"
    by (simp add: multiple_message_def str_int_def str_nat.simps digit_char_def)
  have s: "str_int 7 = ''7''" "str_int 3 = ''3''"
    by (simp_all add: str_int_def str_nat.simps digit_char_def)
  show ?thesis
    using assign_teams_rejects_iff [of "[''A'', ''B'', ''C'']" counter_shuffle 7 0]
    by (simp add: msg s)
qed

text \<open>
  Claim C8.  \<open>assign_teams\<close> is all-or-nothing on the configuration error: when it raises the
  \<^verbatim>\<open>ValueError\<close> the outcome holds no dictionary, the state of the random source is the one it
  was called with, and the shuffle was not consulted (any other shuffle gives the same
  outcome and state).
\<close>

theorem assign_teams_error_keeps_rng:
  assumes "assign_teams shuffle num_teams conditions rng = (Inl (ValueError msg), rng')"
  shows "rng' = rng
       \<and> (\<forall>shuffle'. assign_teams shuffle' num_teams conditions rng = (Inl (ValueError msg), rng))"
  using assms by (auto simp: assign_teams_cases split: if_splits dest: blocks_loop_error)

theorem assign_teams_error_keeps_rng_witness:
  "assign_teams counter_shuffle 7 [''A'', ''B'', ''C''] 5
     = (Inl (ValueError (multiple_message 7 3)), 5)
   \<and> assign_teams (counter_shuffle \<circ> Suc) 7 [''A'', ''B'', ''C''] 5
     = (Inl (ValueError (multiple_message 7 3)), 5)"
proof -
  have run: "assign_teams counter_shuffle 7 [''A'', ''B'', ''C''] 5
             = (Inl (ValueError (multiple_message 7 3)), 5)"
    by (simp add: assign_teams_cases)
  show ?thesis
    using assign_teams_error_keeps_rng [OF run] by (simp add: run)
qed

text \<open>
  Claim C9.  With the empty list of conditions, whatever \<open>num_teams\<close> is, the divisibility
  check \<^verbatim>\<open>num_teams % 0\<close> raises \<^verbatim>\<open>ZeroDivisionError\<close>: no \<^verbatim>\<open>ValueError\<close>, no dictionary, and
  the random source untouched.
\<close>

theorem assign_teams_no_conditions:
  "assign_teams shuffle num_teams [] rng = (Inl ZeroDivisionError, rng)"
  by (simp add: assign_teams_def py_mod_def)

text \<open>
  Claim C10.  With a non-empty list of conditions and a \<open>num_teams \<le> 0\<close> that \<open>k\<close> divides
  (\<open>num_teams = 0\<close> in particular), \<open>assign_teams\<close> raises nothing and returns the empty
  dictionary.
\<close>

theorem assign_teams_nonpositive:
  assumes "conditions \<noteq> []" and "num_teams \<le> 0"
    and "num_teams mod int (length conditions) = 0"
  shows "fst (assign_teams shuffle num_teams conditions rng) = Inr []"
proof -
  have "num_teams div int (length conditions) \<le> 0"
    using assms(1,2) by (simp add: div_nonpos_pos_le0)
  then have "py_range (num_teams div int (length conditions)) = []"
    by (simp add: py_range_def)
  then show ?thesis using assms by (simp add: assign_teams_cases)
qed

theorem assign_teams_nonpositive_witness:
  "[''A'', ''B'', ''C''] \<noteq> [] \<and> (- 3::int) \<le> 0 \<and> (- 3::int) mod int (length [''A'', ''B'', ''C'']) = 0
   \<and> fst (assign_teams counter_shuffle (- 3) [''A'', ''B'', ''C''] 0) = Inr []
   \<and> fst (assign_teams counter_shuffle 0 [''A'', ''B'', ''C''] 0) = Inr []"
  using assign_teams_nonpositive [of "[''A'', ''B'', ''C'']" "- 3" counter_shuffle 0]
    assign_teams_nonpositive [of "[''A'', ''B'', ''C'']" 0 counter_shuffle 0]
  by simp

section \<open>Reproducibility\<close>

text \<open>
  Claim C6.  Two runs of \<open>main\<close> with the same seed and the same inputs return the same
  dictionary and leave the random source in the same state, whatever state the random
  source had before each run: seeding replaces the state, and \<open>assign_teams\<close> depends on
  the random source through that state only.
\<close>

theorem main_seeded_deterministic:
  "main seed shuffle (Some s) teams conditions rng1
   = main seed shuffle (Some s) teams conditions rng2"
  by (simp add: main_def)

theorem main_seeded_deterministic_witness:
  "main counter_seed counter_shuffle (Some 7) 6 [''Control'', ''HPM'', ''AIPM''] 3
   = main counter_seed counter_shuffle (Some 7) 6 [''Control'', ''HPM'', ''AIPM''] 8"
  by (rule main_seeded_deterministic)

section \<open>The dictionary returned on a valid input\<close>

text \<open>
  Claim C4.  On a valid input (a non-empty list of \<open>k\<close> conditions, \<open>num_teams\<close> a multiple
  of \<open>k\<close>, and a shuffle that permutes the team indices) the returned dictionary has exactly
  \<open>num_teams\<close> entries; its keys are pairwise different and are exactly the strings
  \<^verbatim>\<open>Team 1\<close>, \<dots>, \<^verbatim>\<open>Team num_teams\<close>; every value has length \<open>k\<close> and consists of labels
  of \<open>conditions\<close>.
\<close>

theorem assign_teams_complete:
  assumes "conditions \<noteq> []" and "num_teams mod int (length conditions) = 0"
    and "mset (fst (shuffle rng (py_range num_teams))) = mset (py_range num_teams)"
  shows "\<exists>a. fst (assign_teams shuffle num_teams conditions rng) = Inr a
           \<and> length a = nat num_teams
           \<and> distinct (map fst a)
           \<and> set (map fst a) = (\<lambda>n. ''Team '' @ str_int n) ` {1..num_teams}
           \<and> (\<forall>(team, labels) \<in> set a.
                 length labels = length conditions \<and> set labels \<subseteq> set conditions)"
proof -
  let ?ti = "fst (shuffle rng (py_range num_teams))"
  let ?a = "map (entry ?ti conditions) [0..<nat num_teams]"
  have keys: "map fst ?a = map team_name ?ti"
    by (rule entries_keys) (rule shuffled_facts(1) [OF assms(3)])
  have "set (map fst ?a) = team_name ` {0..num_teams - 1}"
    unfolding keys by (simp add: shuffled_facts(3) [OF assms(3)])
  also have "\<dots> = (\<lambda>t. ''Team '' @ str_int (t + 1)) ` {0..num_teams - 1}"
    by (intro image_cong refl) (simp only: team_name_def)
  also have "\<dots> = (\<lambda>n. ''Team '' @ str_int n) ` ((\<lambda>t. t + 1) ` {0..num_teams - 1})"
    by (simp only: image_image)
  also have "(\<lambda>t. t + 1) ` {0..num_teams - 1} = {1..num_teams}"
    using image_add_atLeastAtMost [of 1 0 "num_teams - 1"] by (simp add: add.commute)
  finally have names: "set (map fst ?a) = (\<lambda>n. ''Team '' @ str_int n) ` {1..num_teams}" .
  have vals: "\<forall>(team, labels) \<in> set ?a.
                 length labels = length conditions \<and> set labels \<subseteq> set conditions"
    by (auto simp: entry_def)
  have "fst (assign_teams shuffle num_teams conditions rng) = Inr ?a"
    using assms by (rule assign_teams_entries)
  moreover have "length ?a = nat num_teams" by simp
  moreover have "distinct (map fst ?a)" using assms(3) by (rule entries_distinct)
  ultimately show ?thesis using names vals by blast
qed

theorem assign_teams_complete_witness:
  "[''Control'', ''HPM'', ''AIPM''] \<noteq> []
   \<and> (6::int) mod int (length [''Control'', ''HPM'', ''AIPM'']) = 0
   \<and> mset (fst (counter_shuffle 0 (py_range 6))) = mset (py_range 6)
   \<and> fst (assign_teams counter_shuffle 6 [''Control'', ''HPM'', ''AIPM''] 0)
       = Inr [(''Team 5'', [''Control'', ''HPM'', ''AIPM'']),
              (''Team 4'', [''HPM'', ''AIPM'', ''Control'']),
              (''Team 3'', [''AIPM'', ''Control'', ''HPM'']),
              (''Team 2'', [''Control'', ''HPM'', ''AIPM'']),
              (''Team 1'', [''HPM'', ''AIPM'', ''Control'']),
              (''Team 6'', [''AIPM'', ''Control'', ''HPM''])]
   \<and> set (map fst [(''Team 5'', [''Control'', ''HPM'', ''AIPM'']),
              (''Team 4'', [''HPM'', ''AIPM'', ''Control'']),
              (''Team 3'', [''AIPM'', ''Control'', ''HPM'']),
              (''Team 2'', [''Control'', ''HPM'', ''AIPM'']),
              (''Team 1'', [''HPM'', ''AIPM'', ''Control'']),
              (''Team 6'', [''AIPM'', ''Control'', ''HPM''])])
       = (\<lambda>n. ''Team '' @ str_int n) ` {1..6}"
proof -
  have perm: "mset (fst (counter_shuffle 0 (py_range 6))) = mset (py_range 6)"
    by (rule counter_shuffle_permutes)
  have run: "fst (assign_teams counter_shuffle 6 [''Control'', ''HPM'', ''AIPM''] 0)
       = Inr [(''Team 5'', [''Control'', ''HPM'', ''AIPM'']),
              (''Team 4'', [''HPM'', ''AIPM'', ''Control'']),
              (''Team 3'', [''AIPM'', ''Control'', ''HPM'']),
              (''Team 2'', [''Control'', ''HPM'', ''AIPM'']),
              (''Team 1'', [''HPM'', ''AIPM'', ''Control'']),
              (''Team 6'', [''AIPM'', ''Control'', ''HPM''])]"
    by code_simp
  show ?thesis
    using assign_teams_complete [of "[''Control'', ''HPM'', ''AIPM'']" 6 counter_shuffle 0] perm
    by (simp add: run)
qed

text \<open>
  Claim C5.  On a valid input, for every block \<open>b\<close> below \<open>num_teams div k\<close> and every row
  \<open>r\<close> below \<open>k\<close>, the team index found at position \<open>b * k + r\<close> of the shuffled list is
  stored under the key \<^verbatim>\<open>Team\<close> followed by that index plus one, and its value is the
  sequence \<open>[conditions[square[r][0]], \<dots>, conditions[square[r][k-1]]]\<close>.
\<close>

theorem assign_teams_row_of_position:
  assumes "conditions \<noteq> []" and "num_teams mod int (length conditions) = 0"
    and "mset (fst (shuffle rng (py_range num_teams))) = mset (py_range num_teams)"
    and "int b < num_teams div int (length conditions)" and "r < length conditions"
  shows "\<exists>a. fst (assign_teams shuffle num_teams conditions rng) = Inr a
           \<and> map_of a (''Team '' @
                 str_int (fst (shuffle rng (py_range num_teams)) ! (b * length conditions + r) + 1))
             = Some (map (\<lambda>j. conditions ! nat (latin_square (int (length conditions)) ! r ! j))
                       [0..<length conditions])"
proof -
  let ?K = "length conditions"
  let ?ti = "fst (shuffle rng (py_range num_teams))"
  let ?a = "map (entry ?ti conditions) [0..<nat num_teams]"
  let ?pos = "b * ?K + r"
  have K: "0 < ?K" using assms(1) by simp
  have "b < nat (num_teams div int ?K)" using assms(4) by simp
  then have "Suc b * ?K \<le> nat (num_teams div int ?K) * ?K"
    by (intro mult_le_mono1) simp
  then have pos: "?pos < nat num_teams"
    using assms(5) by (simp add: blocks_times [OF K assms(2)])
  have "entry ?ti conditions ?pos = (team_name (?ti ! ?pos), rotate r conditions)"
    using assms(5) by (simp add: entry_def)
  moreover have "entry ?ti conditions ?pos \<in> set ?a"
    using pos by simp
  ultimately have "map_of ?a (team_name (?ti ! ?pos)) = Some (rotate r conditions)"
    using entries_distinct [OF assms(3)] by (metis map_of_is_SomeI)
  then have "map_of ?a (''Team '' @ str_int (?ti ! ?pos + 1))
             = Some (map (\<lambda>j. conditions ! nat (latin_square (int ?K) ! r ! j)) [0..<?K])"
    by (simp only: team_name_def rotate_row [OF assms(5)])
  moreover have "fst (assign_teams shuffle num_teams conditions rng) = Inr ?a"
    using assms(1-3) by (rule assign_teams_entries)
  ultimately show ?thesis by blast
qed

theorem assign_teams_row_of_position_witness:
  "[''Control'', ''HPM'', ''AIPM''] \<noteq> []
   \<and> (6::int) mod int (length [''Control'', ''HPM'', ''AIPM'']) = 0
   \<and> mset (fst (counter_shuffle 0 (py_range 6))) = mset (py_range 6)
   \<and> int 1 < 6 div int (length [''Control'', ''HPM'', ''AIPM''])
   \<and> (2::nat) < length [''Control'', ''HPM'', ''AIPM'']
   \<and> fst (counter_shuffle 0 (py_range 6)) = [4, 3, 2, 1, 0, 5]
   \<and> latin_square 3 ! 2 = [2, 0, 1]
   \<and> map_of [(''Team 5'', [''Control'', ''HPM'', ''AIPM'']),
              (''Team 4'', [''HPM'', ''AIPM'', ''Control'']),
              (''Team 3'', [''AIPM'', ''Control'', ''HPM'']),
              (''Team 2'', [''Control'', ''HPM'', ''AIPM'']),
              (''Team 1'', [''HPM'', ''AIPM'', ''Control'']),
              (''Team 6'', [''AIPM'', ''Control'', ''HPM''])] ''Team 6''
       = Some [''AIPM'', ''Control'', ''HPM'']"
proof -
  have perm: "mset (fst (counter_shuffle 0 (py_range 6))) = mset (py_range 6)"
    by (rule counter_shuffle_permutes)
  have run: "fst (assign_teams counter_shuffle 6 [''Control'', ''HPM'', ''AIPM''] 0)
       = Inr [(''Team 5'', [''Control'', ''HPM'', ''AIPM'']),
              (''Team 4'', [''HPM'', ''AIPM'', ''Control'']),
              (''Team 3'', [''AIPM'', ''Control'', ''HPM'']),
              (''Team 2'', [''Control'', ''HPM'', ''AIPM'']),
              (''Team 1'', [''HPM'', ''AIPM'', ''Control'']),
              (''Team 6'', [''AIPM'', ''Control'', ''HPM''])]"
    by code_simp
  have ti: "fst (counter_shuffle 0 (py_range 6)) = [4, 3, 2, 1, 0, 5]"
    by code_simp
  have sq: "latin_square 3 ! 2 = [2, 0, 1]"
    by code_simp
  have name: "''Team '' @ str_int 6 = ''Team 6''"
    by code_simp
  have upt: "[0..<3] = [0, 1, 2]"
    by code_simp
  show ?thesis
    using assign_teams_row_of_position
      [of "[''Control'', ''HPM'', ''AIPM'']" 6 counter_shuffle 0 1 2] perm
    by (simp add: run ti sq name upt)
qed

text \<open>
  Claim C7.  On a valid input the shuffle only decides which team gets which sequence:
  for any two shuffles (and random-source states) that permute the team indices, the two
  returned dictionaries hold the same multiset of condition sequences as values.
\<close>

theorem assign_teams_values_independent:
  assumes "conditions \<noteq> []" and "num_teams mod int (length conditions) = 0"
    and "mset (fst (shuffle1 rng1 (py_range num_teams))) = mset (py_range num_teams)"
    and "mset (fst (shuffle2 rng2 (py_range num_teams))) = mset (py_range num_teams)"
  shows "\<exists>a1 a2. fst (assign_teams shuffle1 num_teams conditions rng1) = Inr a1
           \<and> fst (assign_teams shuffle2 num_teams conditions rng2) = Inr a2
           \<and> mset (map snd a1) = mset (map snd a2)"
proof -
  let ?a = "\<lambda>ti. map (entry ti conditions) [0..<nat num_teams]"
  have "map snd (?a ti1) = map snd (?a ti2)" for ti1 ti2
    by (simp add: entry_def)
  then have "mset (map snd (?a (fst (shuffle1 rng1 (py_range num_teams)))))
             = mset (map snd (?a (fst (shuffle2 rng2 (py_range num_teams)))))"
    by metis
  moreover have "fst (assign_teams shuffle1 num_teams conditions rng1)
                 = Inr (?a (fst (shuffle1 rng1 (py_range num_teams))))"
    using assms(1,2,3) by (rule assign_teams_entries)
  moreover have "fst (assign_teams shuffle2 num_teams conditions rng2)
                 = Inr (?a (fst (shuffle2 rng2 (py_range num_teams))))"
    using assms(1,2,4) by (rule assign_teams_entries)
  ultimately show ?thesis by blast
qed

theorem assign_teams_values_independent_witness:
  "[''A'', ''B''] \<noteq> [] \<and> (4::int) mod int (length [''A'', ''B'']) = 0
   \<and> mset (fst (counter_shuffle 0 (py_range 4))) = mset (py_range 4)
   \<and> mset (fst (counter_shuffle 2 (py_range 4))) = mset (py_range 4)
   \<and> fst (assign_teams counter_shuffle 4 [''A'', ''B''] 0)
       = Inr [(''Team 3'', [''A'', ''B'']), (''Team 2'', [''B'', ''A'']),
              (''Team 1'', [''A'', ''B'']), (''Team 4'', [''B'', ''A''])]
   \<and> fst (assign_teams counter_shuffle 4 [''A'', ''B''] 2)
       = Inr [(''Team 1'', [''A'', ''B'']), (''Team 4'', [''B'', ''A'']),
              (''Team 3'', [''A'', ''B'']), (''Team 2'', [''B'', ''A''])]
   \<and> mset (map snd [(''Team 3'', [''A'', ''B'']), (''Team 2'', [''B'', ''A'']),
              (''Team 1'', [''A'', ''B'']), (''Team 4'', [''B'', ''A''])])
     = mset (map snd [(''Team 1'', [''A'', ''B'']), (''Team 4'', [''B'', ''A'']),
              (''Team 3'', [''A'', ''B'']), (''Team 2'', [''B'', ''A''])])"
proof -
  have perm: "mset (fst (counter_shuffle rng (py_range 4))) = mset (py_range 4)" for rng
    by (rule counter_shuffle_permutes)
  have run0: "fst (assign_teams counter_shuffle 4 [''A'', ''B''] 0)
       = Inr [(''Team 3'', [''A'', ''B'']), (''Team 2'', [''B'', ''A'']),
              (''Team 1'', [''A'', ''B'']), (''Team 4'', [''B'', ''A''])]"
    by code_simp
  have run1: "fst (assign_teams counter_shuffle 4 [''A'', ''B''] 2)
       = Inr [(''Team 1'', [''A'', ''B'']), (''Team 4'', [''B'', ''A'']),
              (''Team 3'', [''A'', ''B'']), (''Team 2'', [''B'', ''A''])]"
    by code_simp
  show ?thesis
    using assign_teams_values_independent
      [of "[''A'', ''B'']" 4 counter_shuffle 0 counter_shuffle 2] perm
    by (simp add: run0 run1)
qed

section \<open>Balance\<close>

text \<open>
  Claim C1, as stated: for every list of \<open>k \<ge> 1\<close> conditions and \<open>num_teams = m * k\<close> with
  \<open>m\<close> positive, every condition of the list stands at every position \<open>p < k\<close> in exactly
  \<open>m\<close> of the returned sequences.  This fails when a label occurs twice in \<open>conditions\<close>:
  with \<^verbatim>\<open>["A", "A"]\<close> and two teams (\<open>m = 1\<close>), both sequences have \<^verbatim>\<open>A\<close> at position 0.
\<close>

theorem assign_teams_balanced_counterexample:
  "[''A'', ''A''] \<noteq> []
   \<and> (2::int) = 1 * int (length [''A'', ''A'']) \<and> (0::int) < 1
   \<and> mset (fst (counter_shuffle 0 (py_range 2))) = mset (py_range 2)
   \<and> (0::nat) < length [''A'', ''A''] \<and> ''A'' \<in> set [''A'', ''A'']
   \<and> fst (assign_teams counter_shuffle 2 [''A'', ''A''] 0)
       = Inr [(''Team 1'', [''A'', ''A'']), (''Team 2'', [''A'', ''A''])]
   \<and> position_count [(''Team 1'', [''A'', ''A'']), (''Team 2'', [''A'', ''A''])] 0 ''A'' = 2
   \<and> position_count [(''Team 1'', [''A'', ''A'']), (''Team 2'', [''A'', ''A''])] 0 ''A'' \<noteq> nat 1"
proof -
  have perm: "mset (fst (counter_shuffle 0 (py_range 2))) = mset (py_range 2)"
    by (rule counter_shuffle_permutes)
  have run: "fst (assign_teams counter_shuffle 2 [''A'', ''A''] 0)
       = Inr [(''Team 1'', [''A'', ''A'']), (''Team 2'', [''A'', ''A''])]"
    by code_simp
  have cnt: "position_count [(''Team 1'', [''A'', ''A'']), (''Team 2'', [''A'', ''A''])] 0 ''A'' = 2"
    by (simp add: position_count_def)
  show ?thesis
    using perm run by (simp add: cnt)
qed

text \<open>
  Claim C1, amended: for every list of \<open>k \<ge> 1\<close> pairwise different conditions and
  \<open>num_teams = m * k\<close> with \<open>m\<close> positive, every condition of the list stands at every
  position \<open>p < k\<close> in exactly \<open>m\<close> of the returned sequences (with a shuffle that permutes
  the team indices).
\<close>

theorem assign_teams_balanced:
  assumes "conditions \<noteq> []" and "distinct conditions"
    and "0 < m" and "num_teams = m * int (length conditions)"
    and "mset (fst (shuffle rng (py_range num_teams))) = mset (py_range num_teams)"
    and "p < length conditions" and "c \<in> set conditions"
  shows "\<exists>a. fst (assign_teams shuffle num_teams conditions rng) = Inr a
           \<and> position_count a p c = nat m"
proof -
  let ?K = "length conditions"
  let ?ti = "fst (shuffle rng (py_range num_teams))"
  let ?a = "map (entry ?ti conditions) [0..<nat num_teams]"
  have dvd: "num_teams mod int ?K = 0" using assms(4) by simp
  have n: "nat num_teams = nat m * ?K"
    using assms(3,4) by (simp add: nat_mult_distrib)
  have "position_count ?a p c
        = length (filter (\<lambda>pos. rotate (pos mod ?K) conditions ! p = c) [0..<nat m * ?K])"
    unfolding n using assms(6) by (rule position_count_entries)
  also have "\<dots> = nat m * length (filter (\<lambda>r. rotate r conditions ! p = c) [0..<?K])"
    by (rule count_over_blocks)
  also have "\<dots> = nat m"
    using assms(2,7,6) by (simp add: count_in_block)
  finally have "position_count ?a p c = nat m" .
  moreover have "fst (assign_teams shuffle num_teams conditions rng) = Inr ?a"
    using assms(1) dvd assms(5) by (rule assign_teams_entries)
  ultimately show ?thesis by blast
qed

theorem assign_teams_balanced_witness:
  "[''Control'', ''HPM'', ''AIPM''] \<noteq> [] \<and> distinct [''Control'', ''HPM'', ''AIPM'']
   \<and> (0::int) < 2 \<and> (6::int) = 2 * int (length [''Control'', ''HPM'', ''AIPM''])
   \<and> mset (fst (counter_shuffle 0 (py_range 6))) = mset (py_range 6)
   \<and> (1::nat) < length [''Control'', ''HPM'', ''AIPM'']
   \<and> ''HPM'' \<in> set [''Control'', ''HPM'', ''AIPM'']
   \<and> position_count [(''Team 5'', [''Control'', ''HPM'', ''AIPM'']),
              (''Team 4'', [''HPM'', ''AIPM'', ''Control'']),
              (''Team 3'', [''AIPM'', ''Control'', ''HPM'']),
              (''Team 2'', [''Control'', ''HPM'', ''AIPM'']),
              (''Team 1'', [''HPM'', ''AIPM'', ''Control'']),
              (''Team 6'', [''AIPM'', ''Control'', ''HPM''])] 1 ''HPM'' = 2"
proof -
  have perm: "mset (fst (counter_shuffle 0 (py_range 6))) = mset (py_range 6)"
    by (rule counter_shuffle_permutes)
  have run: "fst (assign_teams counter_shuffle 6 [''Control'', ''HPM'', ''AIPM''] 0)
       = Inr [(''Team 5'', [''Control'', ''HPM'', ''AIPM'']),
              (''Team 4'', [''HPM'', ''AIPM'', ''Control'']),
              (''Team 3'', [''AIPM'', ''Control'', ''HPM'']),
              (''Team 2'', [''Control'', ''HPM'', ''AIPM'']),
              (''Team 1'', [''HPM'', ''AIPM'', ''Control'']),
              (''Team 6'', [''AIPM'', ''Control'', ''HPM''])]"
    by code_simp
  have "\<exists>a. fst (assign_teams counter_shuffle 6 [''Control'', ''HPM'', ''AIPM''] 0) = Inr a
          \<and> position_count a 1 ''HPM'' = nat 2"
    using perm
    by (intro assign_teams_balanced [of "[''Control'', ''HPM'', ''AIPM'']" 2 6 counter_shuffle 0])
       simp_all
  then show ?thesis
    using perm by (simp add: run)
qed

end
